theory Spec2Isabelle
  imports Complex_Main "HOL-Library.Word"
begin

section \<open>Object-detection pipeline of \<open>project_context/model.py\<close>\<close>

text \<open>
  The embedding follows \<open>model.py\<close>. Python floats are modelled as exact rationals
  (\<open>rat\<close>): comparisons, \<open>min\<close>, \<open>/\<close> and \<open>int()\<close> are the mathematical ones, and
  IEEE rounding, infinities and NaN are outside the model. Python integers are \<open>int\<close>;
  the target dimensions \<open>new_w\<close>, \<open>new_h\<close> (\<open>in_w\<close>, \<open>in_h\<close>) are taken as Python integers.
  An exception is a value of \<open>py_error\<close>, returned as \<open>Inl\<close>.
\<close>

subsection \<open>Exceptions and numeric helpers\<close>

datatype py_error = ZeroDivisionError | IndexError | ValueError | RuntimeError


text \<open>Python's \<open>int(x)\<close> on a float truncates towards zero.\<close>

definition py_int :: "rat \<Rightarrow> int" where
  "py_int q = (if 0 \<le> q then \<lfloor>q\<rfloor> else \<lceil>q\<rceil>)"

text \<open>Python's \<open>a / b\<close> raises \<open>ZeroDivisionError\<close> when \<open>b\<close> is zero.\<close>

definition py_truediv :: "rat \<Rightarrow> rat \<Rightarrow> py_error + rat" where
  "py_truediv a b = (if b = 0 then Inl ZeroDivisionError else Inr (a / b))"

text \<open>Indexing a sequence with a non-negative index; out of range raises \<open>IndexError\<close>.\<close>

definition py_index :: "'a list \<Rightarrow> nat \<Rightarrow> py_error + 'a" where
  "py_index xs i = (if i < length xs then Inr (xs ! i) else Inl IndexError)"

text \<open>Python's \<open>str\<close> of an integer, as used by the f-string \<open>f"id:{c}"\<close>.\<close>

definition digit_char :: "nat \<Rightarrow> char" where
  "digit_char d = ''0123456789'' ! d"

fun str_nat :: "nat \<Rightarrow> string" where
  "str_nat n = (if n < 10 then [digit_char n] else str_nat (n div 10) @ [digit_char (n mod 10)])"

definition str_int :: "int \<Rightarrow> string" where
  "str_int c = (if c < 0 then CHR ''-'' # str_nat (nat (- c)) else str_nat (nat c))"

subsection \<open>Label resolution (lines 170-177 of \<open>detection_loop\<close>)\<close>

definition resolve_label :: "string list \<Rightarrow> int \<Rightarrow> string" where
  "resolve_label labels c =
     (if 0 \<le> c \<and> c < int (length labels) then labels ! nat c
      else if 1 \<le> c \<and> c \<le> int (length labels) then labels ! nat (c - 1)
      else ''id:'' @ str_int c)"

subsection \<open>Letterbox (lines 68-84)\<close>

text \<open>
  A pixel is its three 8-bit channels. An image carries its shape as NumPy does (so a
  zero-height image still has a width) and its rows. The resampling done by
  \<open>cv2.resize\<close> (or PIL in the fallback) is a library call: it is a parameter \<open>resize\<close>
  of the model, taking the image and \<open>(nw, nh)\<close> and returning the resized rows or
  raising.
\<close>

type_synonym pixel = "8 word list"

record image =
  height :: nat
  width :: nat
  rows :: "pixel list list"

definition zero_pixel :: pixel where
  "zero_pixel = [0, 0, 0]"

text \<open>\<open>np.zeros((new_h, new_w, 3))\<close>: a negative dimension raises \<open>ValueError\<close>.\<close>

definition np_zeros :: "int \<Rightarrow> int \<Rightarrow> py_error + pixel list list" where
  "np_zeros new_h new_w =
     (if new_h < 0 \<or> new_w < 0 then Inl ValueError
      else Inr (replicate (nat new_h) (replicate (nat new_w) zero_pixel)))"

definition paste_row :: "pixel list \<Rightarrow> nat \<Rightarrow> pixel list \<Rightarrow> pixel list" where
  "paste_row row left new = take left row @ new @ drop (left + length new) row"

text \<open>An array of \<open>nh\<close> rows of \<open>nw\<close> pixels each (shape \<open>(nh, nw, 3)\<close>).\<close>

definition has_shape :: "pixel list list \<Rightarrow> int \<Rightarrow> int \<Rightarrow> bool" where
  "has_shape a nh nw = (length a = nat nh \<and> list_all (\<lambda>r. length r = nat nw) a)"

text \<open>
  The slice assignment \<open>canvas[top:top+nh, left:left+nw] = resized\<close>. When the slice lies
  inside the canvas and \<open>resized\<close> has shape \<open>(nh, nw)\<close> the region is overwritten; in
  every other case the model reports the shape mismatch as \<open>ValueError\<close>.
\<close>

definition paste ::
  "pixel list list \<Rightarrow> int \<Rightarrow> int \<Rightarrow> int \<Rightarrow> int \<Rightarrow> pixel list list \<Rightarrow> py_error + pixel list list" where
  "paste canvas top_px left_px nh nw resized =
     (if 0 \<le> top_px \<and> 0 \<le> left_px \<and> 0 \<le> nh \<and> 0 \<le> nw
         \<and> top_px + nh \<le> int (length canvas)
         \<and> list_all (\<lambda>row. left_px + nw \<le> int (length row)) canvas
         \<and> has_shape resized nh nw
      then Inr (take (nat top_px) canvas
                @ map2 (\<lambda>row new. paste_row row (nat left_px) new)
                       (take (nat nh) (drop (nat top_px) canvas)) resized
                @ drop (nat top_px + nat nh) canvas)
      else Inl ValueError)"

text \<open>The geometry of \<open>letterbox\<close>: \<open>scale\<close>, \<open>nw\<close>, \<open>nh\<close>, \<open>top\<close>, \<open>left\<close>.\<close>

record lb_geom =
  g_scale :: rat
  g_nw :: int
  g_nh :: int
  g_top :: int
  g_left :: int

definition letterbox_geom :: "nat \<Rightarrow> nat \<Rightarrow> int \<Rightarrow> int \<Rightarrow> py_error + lb_geom" where
  "letterbox_geom h w new_w new_h =
     (case py_truediv (of_int new_w) (of_nat w) of
        Inl e \<Rightarrow> Inl e
      | Inr sw \<Rightarrow>
     (case py_truediv (of_int new_h) (of_nat h) of
        Inl e \<Rightarrow> Inl e
      | Inr sh \<Rightarrow>
          let scale = min sw sh;
              nw = py_int (of_nat w * scale);
              nh = py_int (of_nat h * scale)
          in Inr \<lparr>g_scale = scale, g_nw = nw, g_nh = nh,
                  g_top = (new_h - nh) div 2, g_left = (new_w - nw) div 2\<rparr>))"

definition letterbox ::
  "(image \<Rightarrow> int \<Rightarrow> int \<Rightarrow> py_error + pixel list list) \<Rightarrow> image \<Rightarrow> int \<Rightarrow> int
     \<Rightarrow> py_error + (pixel list list \<times> rat \<times> int \<times> int)" where
  "letterbox resize img new_w new_h =
     (case letterbox_geom (height img) (width img) new_w new_h of
        Inl e \<Rightarrow> Inl e
      | Inr g \<Rightarrow>
     (case resize img (g_nw g) (g_nh g) of
        Inl e \<Rightarrow> Inl e
      | Inr resized \<Rightarrow>
     (case np_zeros new_h new_w of
        Inl e \<Rightarrow> Inl e
      | Inr canvas \<Rightarrow>
     (case paste canvas (g_top g) (g_left g) (g_nh g) (g_nw g) resized of
        Inl e \<Rightarrow> Inl e
      | Inr canvas' \<Rightarrow> Inr (canvas', g_scale g, g_left g, g_top g)))))"

subsection \<open>Quantizer (lines 86-103)\<close>

text \<open>
  The input buffer holds 8-bit samples (the canvas has the frame's \<open>uint8\<close> dtype). The
  output element carries its dtype: a float, an unsigned byte, a signed byte (read with
  \<open>sint\<close>), or, for any other declared dtype, the sample as it was.
\<close>

datatype dtype = Float32 | UInt8 | Int8 | OtherDtype

datatype qval = QFloat32 rat | QUInt8 "8 word" | QInt8 "8 word" | QOther "8 word"

text \<open>NumPy's \<open>round\<close> rounds halves to the even neighbour.\<close>

definition np_round :: "rat \<Rightarrow> int" where
  "np_round q =
     (let f = \<lfloor>q\<rfloor>; d = q - of_int f
      in if d < 1 / 2 then f else if 1 / 2 < d then f + 1 else if even f then f else f + 1)"

definition np_clip :: "'a::linorder \<Rightarrow> 'a \<Rightarrow> 'a \<Rightarrow> 'a" where
  "np_clip lo hi v = min hi (max lo v)"

text \<open>\<open>x.astype(np.float32)\<close> on an 8-bit sample: its value, exactly.\<close>

definition as_float :: "8 word \<Rightarrow> rat" where
  "as_float x = of_nat (unat x)"

definition quantize_elem :: "dtype \<Rightarrow> rat \<Rightarrow> int \<Rightarrow> 8 word \<Rightarrow> qval" where
  "quantize_elem in_dtype in_scale in_zero x =
     (if in_dtype = Float32 then QFloat32 (as_float x / 255)
      else if in_dtype = UInt8 then
        (if 0 < in_scale
         then QUInt8 (of_int (np_clip 0 255
                (np_round (as_float x / 255 / in_scale + of_int in_zero))))
         else QUInt8 x)
      else if in_dtype = Int8 then
        (if 0 < in_scale
         then QInt8 (of_int (np_clip (- 128) 127
                (np_round (as_float x / 255 / in_scale + of_int in_zero))))
         else QInt8 (of_int (np_clip (- 128) 127
                (np_round (np_clip (- 1) 1 ((as_float x - 127.5) / 127.5) / 0.0078125)))))
      else QOther x)"

definition quantize_input :: "8 word list \<Rightarrow> dtype \<Rightarrow> rat \<Rightarrow> int \<Rightarrow> qval list" where
  "quantize_input x in_dtype in_scale in_zero = map (quantize_elem in_dtype in_scale in_zero) x"

subsection \<open>Post-processing (lines 165-192 of \<open>detection_loop\<close>)\<close>

text \<open>
  The detector's output: boxes \<open>(ymin, xmin, ymax, xmax)\<close>, classes, scores and the
  count. A detection is \<open>((x1, y1, x2, y2), name, s)\<close>.
\<close>

record raw_output =
  boxes :: "(rat \<times> rat \<times> rat \<times> rat) list"
  classes :: "rat list"
  scores :: "rat list"
  n_count :: int

type_synonym detection = "(int \<times> int \<times> int \<times> int) \<times> string \<times> rat"

text \<open>What the loop body reads besides the detector's output.\<close>

record post_ctx =
  pc_in_w :: int
  pc_in_h :: int
  pc_thresh :: rat
  pc_labels :: "string list"
  pc_scale :: rat
  pc_left :: int
  pc_top :: int
  pc_frame_w :: nat
  pc_frame_h :: nat

text \<open>\<open>int((p - off) / scale)\<close>: the de-letterbox step for one coordinate.\<close>

definition de_letterbox :: "rat \<Rightarrow> int \<Rightarrow> rat \<Rightarrow> py_error + int" where
  "de_letterbox p off scale =
     (case py_truediv (p - of_int off) scale of Inl e \<Rightarrow> Inl e | Inr q \<Rightarrow> Inr (py_int q))"

text \<open>\<open>max(0, min(w - 1, v))\<close>, with \<open>w\<close> a frame dimension.\<close>

definition clamp_px :: "nat \<Rightarrow> int \<Rightarrow> int" where
  "clamp_px w v = max 0 (min (int w - 1) v)"

text \<open>
  Lines 179-188: the box of detection \<open>i\<close> in frame pixels, de-letterboxed and clamped,
  as \<open>(x1, y1, x2, y2)\<close>.
\<close>

definition det_box :: "post_ctx \<Rightarrow> raw_output \<Rightarrow> nat \<Rightarrow> py_error + (int \<times> int \<times> int \<times> int)" where
  "det_box C R i =
     (case py_index (boxes R) i of
        Inl e \<Rightarrow> Inl e
      | Inr (ymin, xmin, ymax, xmax) \<Rightarrow>
     (case de_letterbox (xmin * of_int (pc_in_w C)) (pc_left C) (pc_scale C) of
        Inl e \<Rightarrow> Inl e
      | Inr x1 \<Rightarrow>
     (case de_letterbox (ymin * of_int (pc_in_h C)) (pc_top C) (pc_scale C) of
        Inl e \<Rightarrow> Inl e
      | Inr y1 \<Rightarrow>
     (case de_letterbox (xmax * of_int (pc_in_w C)) (pc_left C) (pc_scale C) of
        Inl e \<Rightarrow> Inl e
      | Inr x2 \<Rightarrow>
     (case de_letterbox (ymax * of_int (pc_in_h C)) (pc_top C) (pc_scale C) of
        Inl e \<Rightarrow> Inl e
      | Inr y2 \<Rightarrow>
          Inr (clamp_px (pc_frame_w C) x1, clamp_px (pc_frame_h C) y1,
               clamp_px (pc_frame_w C) x2, clamp_px (pc_frame_h C) y2))))))"

text \<open>One iteration of \<open>for i in range(count)\<close>: \<open>None\<close> is \<open>continue\<close>.\<close>

definition det_body :: "post_ctx \<Rightarrow> raw_output \<Rightarrow> nat \<Rightarrow> py_error + detection option" where
  "det_body C R i =
     (case py_index (scores R) i of
        Inl e \<Rightarrow> Inl e
      | Inr s \<Rightarrow>
          if s < pc_thresh C then Inr None
          else
     (case py_index (classes R) i of
        Inl e \<Rightarrow> Inl e
      | Inr cf \<Rightarrow>
          let name = resolve_label (pc_labels C) (py_int cf) in
     (case det_box C R i of
        Inl e \<Rightarrow> Inl e
      | Inr (x1, y1, x2, y2) \<Rightarrow>
          if x2 \<le> x1 \<or> y2 \<le> y1 then Inr None
          else Inr (Some ((x1, y1, x2, y2), name, s)))))"

text \<open>The detection that iteration \<open>i\<close> appends, if it appends one.\<close>

definition kept :: "post_ctx \<Rightarrow> raw_output \<Rightarrow> nat \<Rightarrow> detection option" where
  "kept C R i = (case det_body C R i of Inr (Some d) \<Rightarrow> Some d | _ \<Rightarrow> None)"

fun det_loop ::
  "post_ctx \<Rightarrow> raw_output \<Rightarrow> nat list \<Rightarrow> detection list \<Rightarrow> py_error + detection list" where
  "det_loop C R [] dets = Inr dets"
| "det_loop C R (i # js) dets =
     (case det_body C R i of
        Inl e \<Rightarrow> Inl e
      | Inr None \<Rightarrow> det_loop C R js dets
      | Inr (Some d) \<Rightarrow> det_loop C R js (dets @ [d]))"

definition post_process :: "post_ctx \<Rightarrow> raw_output \<Rightarrow> py_error + detection list" where
  "post_process C R = det_loop C R [0 ..< nat (n_count R)] []"

subsection \<open>The inference loop (lines 143-196)\<close>

text \<open>
  What the loop reads from the module: the detector's input contract, the threshold,
  the label table, and the library resampler. What it publishes: the detections, the
  fps estimate, and its own \<open>t_prev\<close>. One pass of \<open>while running\<close> sees either no
  frame yet, or a frame together with what the interpreter answers for the tensor it
  is given (\<open>set_tensor\<close>, \<open>invoke\<close> and the four \<open>get_tensor\<close> reads, which may raise)
  and the clock reading \<open>t_now\<close>. The loop has no \<open>try\<close>: an exception leaves it.
\<close>

record config =
  cfg_in_w :: int
  cfg_in_h :: int
  cfg_dtype :: dtype
  cfg_scale :: rat
  cfg_zero :: int
  cfg_thresh :: rat
  cfg_labels :: "string list"
  cfg_resize :: "image \<Rightarrow> int \<Rightarrow> int \<Rightarrow> py_error + pixel list list"

record loop_state =
  detections :: "detection list"
  fps :: rat
  t_prev :: rat

datatype observation =
  NoFrame
| Frame image "qval list \<Rightarrow> py_error + raw_output" rat

fun cycle :: "config \<Rightarrow> loop_state \<Rightarrow> observation \<Rightarrow> py_error + loop_state" where
  "cycle cfg st NoFrame = Inr st"
| "cycle cfg st (Frame frame interp t_now) =
     (case letterbox (cfg_resize cfg) frame (cfg_in_w cfg) (cfg_in_h cfg) of
        Inl e \<Rightarrow> Inl e
      | Inr (lb_img, scale, left_px, top_px) \<Rightarrow>
     (case interp (quantize_input (concat (concat lb_img))
                     (cfg_dtype cfg) (cfg_scale cfg) (cfg_zero cfg)) of
        Inl e \<Rightarrow> Inl e
      | Inr R \<Rightarrow>
     (case post_process
             \<lparr>pc_in_w = cfg_in_w cfg, pc_in_h = cfg_in_h cfg, pc_thresh = cfg_thresh cfg,
              pc_labels = cfg_labels cfg, pc_scale = scale, pc_left = left_px, pc_top = top_px,
              pc_frame_w = width frame, pc_frame_h = height frame\<rparr> R of
        Inl e \<Rightarrow> Inl e
      | Inr dets \<Rightarrow>
          Inr \<lparr>detections = dets,
               fps = (if t_prev st < t_now then 1 / (t_now - t_prev st) else 0),
               t_prev = t_now\<rparr>)))"

text \<open>
  The loop over the observations made while \<open>running\<close> holds. The result is the state
  last published and the exception that left the loop, if one did.
\<close>

fun detection_loop ::
  "config \<Rightarrow> loop_state \<Rightarrow> observation list \<Rightarrow> loop_state \<times> py_error option" where
  "detection_loop cfg st [] = (st, None)"
| "detection_loop cfg st (ob # obs) =
     (case cycle cfg st ob of
        Inl e \<Rightarrow> (st, Some e)
      | Inr st' \<Rightarrow> detection_loop cfg st' obs)"

text \<open>
  A stand-in for the library resampler, used to run the model on concrete inputs: it
  returns an array of the requested shape filled with one grey value, and raises when a
  requested dimension is not positive, as \<open>cv2.resize\<close> and PIL do.
\<close>

definition flat_resize :: "image \<Rightarrow> int \<Rightarrow> int \<Rightarrow> py_error + pixel list list" where
  "flat_resize img nw nh =
     (if nw \<le> 0 \<or> nh \<le> 0 then Inl ValueError
      else Inr (replicate (nat nh) (replicate (nat nw) [7, 7, 7])))"

text \<open>
  A worked example for the post-processor: a 640 x 480 frame letterboxed into 320 x 320
  (\<open>scale = 0.5\<close>, \<open>left = 0\<close>, \<open>top = 40\<close>), labels \<open>["cat", "dog"]\<close>, and four raw
  detections: one kept, one below the threshold, one exactly at the threshold, and one
  whose box has no height.
\<close>

definition ex_ctx :: post_ctx where
  "ex_ctx = \<lparr>pc_in_w = 320, pc_in_h = 320, pc_thresh = 0.5, pc_labels = [''cat'', ''dog''],
             pc_scale = 0.5, pc_left = 0, pc_top = 40, pc_frame_w = 640, pc_frame_h = 480\<rparr>"

definition ex_raw :: raw_output where
  "ex_raw = \<lparr>boxes = [(1 / 4, 1 / 4, 3 / 4, 3 / 4), (1 / 4, 1 / 4, 3 / 4, 3 / 4),
                       (1 / 8, 0, 1 / 2, 1 / 2), (1 / 2, 1 / 2, 1 / 2, 7 / 8)],
             classes = [0, 1, 2, 5],
             scores = [0.9, 0.4, 0.5, 0.7],
             n_count = 4\<rparr>"

text \<open>
  A worked example for the loop: a model with a 4 x 4 \<open>uint8\<close> input, a 2 x 4 frame
  (height x width; \<open>scale = 1\<close>, \<open>left = 0\<close>, \<open>top = 1\<close>), an interpreter that reports
  one detection, and one whose \<open>invoke\<close> raises.
\<close>

definition ex_cfg :: config where
  "ex_cfg = \<lparr>cfg_in_w = 4, cfg_in_h = 4, cfg_dtype = UInt8, cfg_scale = 0, cfg_zero = 0,
             cfg_thresh = 0.5, cfg_labels = [''cat'', ''dog''], cfg_resize = flat_resize\<rparr>"

definition ex_frame :: image where
  "ex_frame = \<lparr>height = 2, width = 4, rows = replicate 2 (replicate 4 [7, 7, 7])\<rparr>"

definition ex_invoke_ok :: "qval list \<Rightarrow> py_error + raw_output" where
  "ex_invoke_ok x = Inr \<lparr>boxes = [(1 / 4, 0, 3 / 4, 1 / 2)], classes = [0], scores = [0.9],
                         n_count = 1\<rparr>"

definition ex_invoke_fails :: "qval list \<Rightarrow> py_error + raw_output" where
  "ex_invoke_fails x = Inl RuntimeError"

definition ex_st0 :: loop_state where
  "ex_st0 = \<lparr>detections = [], fps = 0, t_prev = 0\<rparr>"

section \<open>Label resolution\<close>

lemma str_int_5: "str_int 5 = ''5''"
  by (simp add: str_int_def digit_char_def)

text \<open>
  C2. For every class index \<open>c\<close> and label table, label resolution returns \<open>labels[c]\<close>
  when \<open>0 \<le> c < len(labels)\<close>; otherwise \<open>labels[c-1]\<close> when \<open>1 \<le> c \<le> len(labels)\<close>;
  otherwise the placeholder \<open>"id:<c>"\<close>. For \<open>labels = ["cat","dog"]\<close>: class 0 maps
  to \<open>"cat"\<close>, class 2 to \<open>"dog"\<close>, class 5 to \<open>"id:5"\<close>.
\<close>

theorem resolve_label_cases:
  "(0 \<le> c \<and> c < int (length labels) \<longrightarrow> resolve_label labels c = labels ! nat c)
   \<and> (\<not> (0 \<le> c \<and> c < int (length labels)) \<and> 1 \<le> c \<and> c \<le> int (length labels)
        \<longrightarrow> resolve_label labels c = labels ! nat (c - 1))
   \<and> (\<not> (0 \<le> c \<and> c < int (length labels)) \<and> \<not> (1 \<le> c \<and> c \<le> int (length labels))
        \<longrightarrow> resolve_label labels c = ''id:'' @ str_int c)
   \<and> resolve_label [''cat'', ''dog''] 0 = ''cat''
   \<and> resolve_label [''cat'', ''dog''] 2 = ''dog''
   \<and> resolve_label [''cat'', ''dog''] 5 = ''id:5''"
  by (simp add: resolve_label_def str_int_5)

theorem resolve_label_cases_witness:
  "resolve_label [''cat'', ''dog''] 1 = ''dog''
   \<and> resolve_label [''cat'', ''dog''] 2 = ''dog''
   \<and> resolve_label [''cat'', ''dog''] (- 3) = ''id:-3''"
  using resolve_label_cases [of 1 "[''cat'', ''dog'']"]
        resolve_label_cases [of 2 "[''cat'', ''dog'']"]
        resolve_label_cases [of "- 3" "[''cat'', ''dog'']"]
  by (simp add: str_int_def digit_char_def)

section \<open>Letterbox: geometry and canvas\<close>

lemma py_int_nonneg: "0 \<le> q \<Longrightarrow> py_int q = \<lfloor>q\<rfloor>"
  by (simp add: py_int_def)

lemma scale_w_le:
  fixes w h :: nat and new_w new_h :: int
  assumes "0 < w"
  shows "of_nat w * min (of_int new_w / of_nat w) (of_int new_h / of_nat h) \<le> (of_int new_w :: rat)"
proof -
  have "of_nat w * min (of_int new_w / of_nat w) (of_int new_h / of_nat h)
        \<le> of_nat w * (of_int new_w / of_nat w :: rat)"
    by (rule mult_left_mono) simp_all
  also have "\<dots> = of_int new_w" using assms by simp
  finally show ?thesis .
qed

lemma scale_h_le:
  fixes w h :: nat and new_w new_h :: int
  assumes "0 < h"
  shows "of_nat h * min (of_int new_w / of_nat w) (of_int new_h / of_nat h) \<le> (of_int new_h :: rat)"
proof -
  have "of_nat h * min (of_int new_w / of_nat w) (of_int new_h / of_nat h)
        \<le> of_nat h * (of_int new_h / of_nat h :: rat)"
    by (rule mult_left_mono) simp_all
  also have "\<dots> = of_int new_h" using assms by simp
  finally show ?thesis .
qed


lemma letterbox_geom_pos:
  fixes scale :: rat
  assumes "0 < h" "0 < w" "0 < new_w" "0 < new_h"
    and "scale = min (of_int new_w / of_nat w) (of_int new_h / of_nat h)"
    and "nw = \<lfloor>of_nat w * scale\<rfloor>" and "nh = \<lfloor>of_nat h * scale\<rfloor>"
  shows "letterbox_geom h w new_w new_h =
     Inr \<lparr>g_scale = scale, g_nw = nw, g_nh = nh,
          g_top = (new_h - nh) div 2, g_left = (new_w - nw) div 2\<rparr>"
proof -
  have sp: "0 < scale" using assms(1-4) by (simp add: assms(5))
  have "0 \<le> of_nat w * scale" "0 \<le> of_nat h * scale" using sp by simp_all
  then have "py_int (of_nat w * scale) = nw" "py_int (of_nat h * scale) = nh"
    by (simp_all add: py_int_nonneg assms(6,7))
  then show ?thesis
    using assms(1,2) by (simp add: letterbox_geom_def py_truediv_def Let_def assms(5)[symmetric])
qed

lemma geom_bounds:
  fixes scale :: rat
  assumes "0 < h" "0 < w" "0 < new_w" "0 < new_h"
    and "scale = min (of_int new_w / of_nat w) (of_int new_h / of_nat h)"
    and "nw = \<lfloor>of_nat w * scale\<rfloor>" and "nh = \<lfloor>of_nat h * scale\<rfloor>"
  shows "0 \<le> nw \<and> nw \<le> new_w \<and> 0 \<le> nh \<and> nh \<le> new_h"
proof -
  have sp: "0 < scale" using assms(1-4) by (simp add: assms(5))
  have a: "0 \<le> of_nat w * scale" "0 \<le> of_nat h * scale" using sp by simp_all
  have b: "of_nat w * scale \<le> of_int new_w" unfolding assms(5) by (rule scale_w_le[OF assms(2)])
  have c: "of_nat h * scale \<le> of_int new_h" unfolding assms(5) by (rule scale_h_le[OF assms(1)])
  have "0 \<le> nw" using a(1) by (simp add: assms(6))
  moreover have "nw \<le> new_w" unfolding assms(6) using b by (simp add: floor_le_iff)
  moreover have "0 \<le> nh" using a(2) by (simp add: assms(7))
  moreover have "nh \<le> new_h" unfolding assms(7) using c by (simp add: floor_le_iff)
  ultimately show ?thesis by simp
qed





lemma div2_bounds:
  fixes a b :: int
  assumes "0 \<le> b" "b \<le> a"
  shows "0 \<le> (a - b) div 2 \<and> (a - b) div 2 + b \<le> a"
  using assms by simp

lemma paste_zeros:
  assumes "0 \<le> t" "0 \<le> l" "0 \<le> nh" "0 \<le> nw"
    and "t + nh \<le> new_h" "l + nw \<le> new_w" "has_shape resized nh nw"
  shows "\<exists>canvas. paste (replicate (nat new_h) (replicate (nat new_w) zero_pixel)) t l nh nw resized
             = Inr canvas"
proof -
  have "list_all (\<lambda>row. l + nw \<le> int (length row)) (replicate (nat new_h) (replicate (nat new_w) zero_pixel))"
    using assms by (simp add: list_all_iff)
  moreover have "t + nh \<le> int (length (replicate (nat new_h) (replicate (nat new_w) zero_pixel)))"
    using assms by simp
  ultimately show ?thesis using assms by (simp add: paste_def)
qed


lemma letterbox_canvas:
  fixes scale :: rat
  assumes pos: "0 < height img" "0 < width img" "0 < new_w" "0 < new_h"
    and sc: "scale = min (of_int new_w / of_nat (width img)) (of_int new_h / of_nat (height img))"
    and nw: "nw = \<lfloor>of_nat (width img) * scale\<rfloor>"
    and nh: "nh = \<lfloor>of_nat (height img) * scale\<rfloor>"
    and rs: "resize img nw nh = Inr resized" "has_shape resized nh nw"
  shows "\<exists>canvas.
           letterbox resize img new_w new_h
             = Inr (canvas, scale, (new_w - nw) div 2, (new_h - nh) div 2)
           \<and> paste (replicate (nat new_h) (replicate (nat new_w) zero_pixel))
                 ((new_h - nh) div 2) ((new_w - nw) div 2) nh nw resized = Inr canvas"
proof -
  have g: "letterbox_geom (height img) (width img) new_w new_h =
     Inr \<lparr>g_scale = scale, g_nw = nw, g_nh = nh,
          g_top = (new_h - nh) div 2, g_left = (new_w - nw) div 2\<rparr>"
    by (rule letterbox_geom_pos[OF pos sc nw nh])
  have b: "0 \<le> nw \<and> nw \<le> new_w \<and> 0 \<le> nh \<and> nh \<le> new_h"
    by (rule geom_bounds[OF pos sc nw nh])
  have bx: "0 \<le> (new_w - nw) div 2 \<and> (new_w - nw) div 2 + nw \<le> new_w"
    using b by (simp add: div2_bounds)
  have by': "0 \<le> (new_h - nh) div 2 \<and> (new_h - nh) div 2 + nh \<le> new_h"
    using b by (simp add: div2_bounds)
  obtain canvas where p: "paste (replicate (nat new_h) (replicate (nat new_w) zero_pixel))
                 ((new_h - nh) div 2) ((new_w - nw) div 2) nh nw resized = Inr canvas"
    using paste_zeros[of "(new_h - nh) div 2" "(new_w - nw) div 2" nh nw new_h new_w resized]
      b bx by' rs(2) by blast
  have z: "np_zeros new_h new_w = Inr (replicate (nat new_h) (replicate (nat new_w) zero_pixel))"
    using pos by (simp add: np_zeros_def)
  have "letterbox resize img new_w new_h
             = Inr (canvas, scale, (new_w - nw) div 2, (new_h - nh) div 2)"
    by (simp add: letterbox_def g rs(1) z p)
  then show ?thesis using p by blast
qed

text \<open>
  C10. For a source image and targets of positive dimensions the paste stays inside the
  canvas: \<open>0 \<le> nw \<le> new_w\<close>, \<open>0 \<le> nh \<le> new_h\<close>, \<open>left \<ge> 0\<close>, \<open>top \<ge> 0\<close>,
  \<open>left + nw \<le> new_w\<close>, \<open>top + nh \<le> new_h\<close>; so whenever the resampler returns an
  array of shape \<open>(nh, nw)\<close> the slice assignment succeeds and \<open>letterbox\<close> returns.
\<close>

theorem letterbox_paste_in_bounds:
  assumes "0 < height img" "0 < width img" "0 < new_w" "0 < new_h"
  shows "\<exists>g. letterbox_geom (height img) (width img) new_w new_h = Inr g
           \<and> 0 \<le> g_nw g \<and> g_nw g \<le> new_w \<and> 0 \<le> g_nh g \<and> g_nh g \<le> new_h
           \<and> 0 \<le> g_left g \<and> 0 \<le> g_top g
           \<and> g_left g + g_nw g \<le> new_w \<and> g_top g + g_nh g \<le> new_h
           \<and> (\<forall>resized. resize img (g_nw g) (g_nh g) = Inr resized
                   \<and> has_shape resized (g_nh g) (g_nw g)
                 \<longrightarrow> (\<exists>canvas. letterbox resize img new_w new_h
                                   = Inr (canvas, g_scale g, g_left g, g_top g)))"
proof -
  define scale :: rat
    where "scale = min (of_int new_w / of_nat (width img)) (of_int new_h / of_nat (height img))"
  define nw where "nw = \<lfloor>of_nat (width img) * scale\<rfloor>"
  define nh where "nh = \<lfloor>of_nat (height img) * scale\<rfloor>"
  let ?g = "\<lparr>g_scale = scale, g_nw = nw, g_nh = nh,
            g_top = (new_h - nh) div 2, g_left = (new_w - nw) div 2\<rparr>"
  have g: "letterbox_geom (height img) (width img) new_w new_h = Inr ?g"
    by (rule letterbox_geom_pos[OF assms scale_def nw_def nh_def])
  have b: "0 \<le> nw \<and> nw \<le> new_w \<and> 0 \<le> nh \<and> nh \<le> new_h"
    by (rule geom_bounds[OF assms scale_def nw_def nh_def])
  have bx: "0 \<le> (new_w - nw) div 2 \<and> (new_w - nw) div 2 + nw \<le> new_w"
    using b by (simp add: div2_bounds)
  have by': "0 \<le> (new_h - nh) div 2 \<and> (new_h - nh) div 2 + nh \<le> new_h"
    using b by (simp add: div2_bounds)
  have r: "\<exists>canvas. letterbox resize img new_w new_h
                      = Inr (canvas, scale, (new_w - nw) div 2, (new_h - nh) div 2)"
    if "resize img nw nh = Inr resized" "has_shape resized nh nw" for resized
    using letterbox_canvas[where resize = resize and resized = resized,
            OF assms scale_def nw_def nh_def that]
    by blast
  show ?thesis
    apply (rule exI[of _ ?g])
    using g b bx by' r by simp
qed

theorem letterbox_paste_in_bounds_witness:
  "\<exists>g. letterbox_geom 480 640 320 320 = Inr g
      \<and> 0 \<le> g_nw g \<and> g_nw g \<le> 320 \<and> 0 \<le> g_nh g \<and> g_nh g \<le> 320
      \<and> 0 \<le> g_left g \<and> 0 \<le> g_top g \<and> g_left g + g_nw g \<le> 320 \<and> g_top g + g_nh g \<le> 320
      \<and> (\<forall>resized. flat_resize \<lparr>height = 480, width = 640, rows = []\<rparr> (g_nw g) (g_nh g)
                      = Inr resized \<and> has_shape resized (g_nh g) (g_nw g)
            \<longrightarrow> (\<exists>canvas. letterbox flat_resize \<lparr>height = 480, width = 640, rows = []\<rparr> 320 320
                              = Inr (canvas, g_scale g, g_left g, g_top g)))"
  using letterbox_paste_in_bounds
          [of "\<lparr>height = 480, width = 640, rows = []\<rparr>" 320 320 flat_resize]
  by simp







section \<open>Quantizer\<close>











section \<open>Post-processing\<close>

lemma clamp_px_nonneg: "0 \<le> clamp_px w v"
  by (simp add: clamp_px_def)

lemma clamp_px_upper: "0 < clamp_px w v \<Longrightarrow> clamp_px w v \<le> int w - 1"
  by (simp add: clamp_px_def max_def min_def split: if_splits)

lemma det_box_clamped:
  assumes "det_box C R i = Inr (x1, y1, x2, y2)"
  shows "\<exists>a b c d. x1 = clamp_px (pc_frame_w C) a \<and> y1 = clamp_px (pc_frame_h C) b
           \<and> x2 = clamp_px (pc_frame_w C) c \<and> y2 = clamp_px (pc_frame_h C) d"
  using assms by (auto simp: det_box_def split: sum.splits prod.splits)

lemma det_body_Some:
  assumes "det_body C R i = Inr (Some d)"
  shows "i < length (scores R) \<and> \<not> scores R ! i < pc_thresh C
         \<and> det_box C R i = Inr (fst d)
         \<and> fst (fst d) < fst (snd (snd (fst d)))
         \<and> fst (snd (fst d)) < snd (snd (snd (fst d)))
         \<and> i < length (classes R)
         \<and> fst (snd d) = resolve_label (pc_labels C) (py_int (classes R ! i))
         \<and> snd (snd d) = scores R ! i"
  using assms
  by (auto simp: det_body_def py_index_def Let_def split: sum.splits prod.splits if_splits)

lemma det_body_low_score:
  "i < length (scores R) \<Longrightarrow> scores R ! i < pc_thresh C \<Longrightarrow> det_body C R i = Inr None"
  by (simp add: det_body_def py_index_def)

lemma det_body_degenerate:
  assumes "det_box C R i = Inr (x1, y1, x2, y2)" "x2 \<le> x1 \<or> y2 \<le> y1"
  shows "\<forall>d. det_body C R i \<noteq> Inr (Some d)"
  using assms
  by (auto simp: det_body_def py_index_def Let_def split: sum.splits prod.splits if_splits)

lemma det_body_eligible:
  assumes "i < length (scores R)" "\<not> scores R ! i < pc_thresh C" "i < length (classes R)"
    and "det_box C R i = Inr (x1, y1, x2, y2)" "x1 < x2" "y1 < y2"
  shows "det_body C R i = Inr (Some ((x1, y1, x2, y2),
           resolve_label (pc_labels C) (py_int (classes R ! i)), scores R ! i))"
  using assms by (simp add: det_body_def py_index_def Let_def)

lemma de_letterbox_ok: "scale \<noteq> 0 \<Longrightarrow> \<exists>v. de_letterbox p off scale = Inr v"
  by (simp add: de_letterbox_def py_truediv_def)

lemma det_box_ok:
  assumes "pc_scale C \<noteq> 0" "i < length (boxes R)"
  shows "\<exists>b. det_box C R i = Inr b"
  using assms
  by (auto simp: det_box_def py_index_def de_letterbox_def py_truediv_def split: prod.splits)

lemma det_body_ok:
  assumes "pc_scale C \<noteq> 0" "i < length (boxes R)" "i < length (classes R)" "i < length (scores R)"
  shows "\<exists>r. det_body C R i = Inr r"
proof -
  obtain b where "det_box C R i = Inr b" using det_box_ok[OF assms(1,2)] by blast
  then show ?thesis using assms(3,4)
    by (auto simp: det_body_def py_index_def Let_def split: prod.splits)
qed

lemma det_loop_acc:
  "det_loop C R js dets = Inr out \<Longrightarrow>
     out = dets @ map (\<lambda>i. the (kept C R i)) (filter (\<lambda>i. kept C R i \<noteq> None) js)"
proof (induction js arbitrary: dets)
  case Nil
  then show ?case by simp
next
  case (Cons i js)
  show ?case
  proof (cases "det_body C R i")
    case (Inl e)
    with Cons.prems show ?thesis by simp
  next
    case (Inr r)
    show ?thesis
    proof (cases r)
      case None
      with Inr Cons.prems have "det_loop C R js dets = Inr out" by simp
      moreover have "kept C R i = None" using Inr None by (simp add: kept_def)
      ultimately show ?thesis using Cons.IH[of dets] by (simp del: not_None_eq)
    next
      case (Some d)
      with Inr Cons.prems have "det_loop C R js (dets @ [d]) = Inr out" by simp
      moreover have "kept C R i = Some d" using Inr Some by (simp add: kept_def)
      ultimately show ?thesis using Cons.IH[of "dets @ [d]"] by (simp del: not_None_eq)
    qed
  qed
qed

lemma det_loop_total:
  "(\<forall>i \<in> set js. \<exists>r. det_body C R i = Inr r) \<Longrightarrow> \<exists>out. det_loop C R js dets = Inr out"
proof (induction js arbitrary: dets)
  case Nil
  then show ?case by simp
next
  case (Cons i js)
  then obtain r where r: "det_body C R i = Inr r" by auto
  from Cons have ih: "\<exists>out. det_loop C R js ds = Inr out" for ds by simp
  show ?case using r ih by (cases r) simp_all
qed

lemma post_process_kept:
  "post_process C R = Inr dets \<Longrightarrow>
     dets = map (\<lambda>i. the (kept C R i)) (filter (\<lambda>i. kept C R i \<noteq> None) [0 ..< nat (n_count R)])"
  using det_loop_acc[of C R "[0 ..< nat (n_count R)]" "[]" dets] by (simp add: post_process_def)

lemma post_process_total:
  assumes "pc_scale C \<noteq> 0" "n_count R \<le> int (length (boxes R))"
    "n_count R \<le> int (length (classes R))" "n_count R \<le> int (length (scores R))"
  shows "\<exists>dets. post_process C R = Inr dets"
proof -
  have "\<forall>i \<in> set [0 ..< nat (n_count R)]. \<exists>r. det_body C R i = Inr r"
  proof
    fix i assume "i \<in> set [0 ..< nat (n_count R)]"
    then have "i < nat (n_count R)" by simp
    then have "i < length (boxes R)" "i < length (classes R)" "i < length (scores R)"
      using assms(2-4) by linarith+
    then show "\<exists>r. det_body C R i = Inr r" using det_body_ok[OF assms(1)] by blast
  qed
  then show ?thesis unfolding post_process_def by (rule det_loop_total)
qed


lemma ex_post_process:
  "post_process ex_ctx ex_raw
     = Inr [((160, 80, 480, 400), ''cat'', 0.9), ((0, 0, 320, 240), ''dog'', 0.5)]"
  by code_simp

lemma det_loop_all_ok:
  "det_loop C R js dets = Inr out \<Longrightarrow> \<forall>i \<in> set js. \<exists>r. det_body C R i = Inr r"
proof (induction js arbitrary: dets)
  case Nil
  then show ?case by simp
next
  case (Cons i js)
  show ?case
  proof (cases "det_body C R i")
    case (Inl e)
    with Cons.prems show ?thesis by simp
  next
    case (Inr r)
    then have "\<exists>ds. det_loop C R js ds = Inr out"
      using Cons.prems by (cases r) auto
    then show ?thesis using Cons.IH Inr by auto
  qed
qed

lemma det_body_Inr_index:
  assumes "det_body C R i = Inr r"
  shows "i < length (scores R) \<and> (\<not> scores R ! i < pc_thresh C \<longrightarrow> i < length (classes R))"
  using assms
  by (auto simp: det_body_def py_index_def Let_def split: sum.splits if_splits)

lemma kept_Some_iff: "kept C R i = Some d \<longleftrightarrow> det_body C R i = Inr (Some d)"
  by (auto simp: kept_def split: sum.splits option.splits)

text \<open>
  C1. The post-processor is a stable, order-preserving filter. It returns whenever the
  scale is not zero and the count does not exceed the arrays. Whenever it returns, the
  output is the image of the increasing list \<open>ks\<close> of retained indices of \<open>[0, count)\<close>, so
  the retained detections keep the detector's order and each carries its own score; an
  index whose score is strictly below the threshold is dropped; an index whose score is
  at least the threshold is eligible: it is retained exactly when its box is not
  degenerate.
\<close>

theorem post_process_stable_filter:
  "(pc_scale C \<noteq> 0 \<and> n_count R \<le> int (length (boxes R))
      \<and> n_count R \<le> int (length (classes R)) \<and> n_count R \<le> int (length (scores R))
     \<longrightarrow> (\<exists>dets. post_process C R = Inr dets))
   \<and> (\<forall>dets. post_process C R = Inr dets \<longrightarrow>
        (\<exists>ks. ks = filter (\<lambda>i. kept C R i \<noteq> None) [0 ..< nat (n_count R)]
            \<and> sorted_wrt (<) ks
            \<and> dets = map (\<lambda>i. the (kept C R i)) ks
            \<and> (\<forall>j < length ks. snd (snd (dets ! j)) = scores R ! (ks ! j))
            \<and> (\<forall>i < nat (n_count R). scores R ! i < pc_thresh C \<longrightarrow> i \<notin> set ks)
            \<and> (\<forall>i < nat (n_count R). pc_thresh C \<le> scores R ! i \<longrightarrow>
                  (i \<in> set ks \<longleftrightarrow>
                     (\<exists>x1 y1 x2 y2. det_box C R i = Inr (x1, y1, x2, y2) \<and> x1 < x2 \<and> y1 < y2)))))"
proof (intro conjI impI allI)
  assume "pc_scale C \<noteq> 0 \<and> n_count R \<le> int (length (boxes R))
      \<and> n_count R \<le> int (length (classes R)) \<and> n_count R \<le> int (length (scores R))"
  then show "\<exists>dets. post_process C R = Inr dets"
    using post_process_total by blast
next
  fix dets
  assume pp: "post_process C R = Inr dets"
  define ks where "ks = filter (\<lambda>i. kept C R i \<noteq> None) [0 ..< nat (n_count R)]"
  have srt: "sorted_wrt (<) ks"
    unfolding ks_def by (rule sorted_wrt_filter) simp
  have dets: "dets = map (\<lambda>i. the (kept C R i)) ks"
    unfolding ks_def by (rule post_process_kept[OF pp])
  have inks: "i \<in> set ks \<longleftrightarrow> i < nat (n_count R) \<and> kept C R i \<noteq> None" for i
    unfolding ks_def by auto
  have ok: "\<exists>r. det_body C R i = Inr r" if "i < nat (n_count R)" for i
    using det_loop_all_ok[of C R "[0 ..< nat (n_count R)]" "[]" dets] pp that
    by (simp add: post_process_def)
  have sc: "\<forall>j < length ks. snd (snd (dets ! j)) = scores R ! (ks ! j)"
  proof (intro allI impI)
    fix j assume j: "j < length ks"
    then have "ks ! j \<in> set ks" by simp
    then obtain d where d: "kept C R (ks ! j) = Some d" using inks by auto
    then have "det_body C R (ks ! j) = Inr (Some d)" by (simp add: kept_Some_iff)
    then have "snd (snd d) = scores R ! (ks ! j)" using det_body_Some by blast
    moreover have "dets ! j = d" using dets j d by simp
    ultimately show "snd (snd (dets ! j)) = scores R ! (ks ! j)" by simp
  qed
  have low: "\<forall>i < nat (n_count R). scores R ! i < pc_thresh C \<longrightarrow> i \<notin> set ks"
  proof (intro allI impI notI)
    fix i assume "i < nat (n_count R)" "scores R ! i < pc_thresh C" "i \<in> set ks"
    then obtain d where "kept C R i = Some d" using inks by auto
    then have "det_body C R i = Inr (Some d)" by (simp add: kept_Some_iff)
    then have "\<not> scores R ! i < pc_thresh C" using det_body_Some by blast
    then show False using \<open>scores R ! i < pc_thresh C\<close> by simp
  qed
  have el: "\<forall>i < nat (n_count R). pc_thresh C \<le> scores R ! i \<longrightarrow>
              (i \<in> set ks \<longleftrightarrow>
                 (\<exists>x1 y1 x2 y2. det_box C R i = Inr (x1, y1, x2, y2) \<and> x1 < x2 \<and> y1 < y2))"
  proof (intro allI impI iffI)
    fix i assume i: "i < nat (n_count R)" and s: "pc_thresh C \<le> scores R ! i"
    {
      assume "i \<in> set ks"
      then obtain d where "kept C R i = Some d" using inks by auto
      then have b: "det_body C R i = Inr (Some d)" by (simp add: kept_Some_iff)
      obtain x1 y1 x2 y2 where f: "fst d = (x1, y1, x2, y2)" by (cases "fst d") auto
      from det_body_Some[OF b] f
      show "\<exists>x1 y1 x2 y2. det_box C R i = Inr (x1, y1, x2, y2) \<and> x1 < x2 \<and> y1 < y2"
        by auto
    }
    {
      assume "\<exists>x1 y1 x2 y2. det_box C R i = Inr (x1, y1, x2, y2) \<and> x1 < x2 \<and> y1 < y2"
      then obtain x1 y1 x2 y2 where
        bx: "det_box C R i = Inr (x1, y1, x2, y2)" "x1 < x2" "y1 < y2" by blast
      obtain r where "det_body C R i = Inr r" using ok[OF i] by blast
      then have idx: "i < length (scores R)" "i < length (classes R)"
        using det_body_Inr_index[of C R i r] s by auto
      have ns: "\<not> scores R ! i < pc_thresh C" using s by simp
      have "det_body C R i = Inr (Some ((x1, y1, x2, y2),
              resolve_label (pc_labels C) (py_int (classes R ! i)), scores R ! i))"
        by (rule det_body_eligible[OF idx(1) ns idx(2) bx])
      then have "kept C R i \<noteq> None" by (simp add: kept_def)
      then show "i \<in> set ks" using inks i by simp
    }
  qed
  show "\<exists>ks. ks = filter (\<lambda>i. kept C R i \<noteq> None) [0 ..< nat (n_count R)]
            \<and> sorted_wrt (<) ks
            \<and> dets = map (\<lambda>i. the (kept C R i)) ks
            \<and> (\<forall>j < length ks. snd (snd (dets ! j)) = scores R ! (ks ! j))
            \<and> (\<forall>i < nat (n_count R). scores R ! i < pc_thresh C \<longrightarrow> i \<notin> set ks)
            \<and> (\<forall>i < nat (n_count R). pc_thresh C \<le> scores R ! i \<longrightarrow>
                  (i \<in> set ks \<longleftrightarrow>
                     (\<exists>x1 y1 x2 y2. det_box C R i = Inr (x1, y1, x2, y2) \<and> x1 < x2 \<and> y1 < y2)))"
    using ks_def srt dets sc low el by blast
qed

theorem post_process_stable_filter_witness:
  "\<exists>dets. post_process ex_ctx ex_raw = Inr dets
       \<and> dets = map (\<lambda>i. the (kept ex_ctx ex_raw i)) [0, 2]
       \<and> snd (snd (dets ! 0)) = scores ex_raw ! 0
       \<and> snd (snd (dets ! 1)) = scores ex_raw ! 2"
proof -
  have wf: "pc_scale ex_ctx \<noteq> 0 \<and> n_count ex_raw \<le> int (length (boxes ex_raw))
      \<and> n_count ex_raw \<le> int (length (classes ex_raw))
      \<and> n_count ex_raw \<le> int (length (scores ex_raw))"
    by (simp add: ex_ctx_def ex_raw_def)
  have ks: "filter (\<lambda>i. kept ex_ctx ex_raw i \<noteq> None) [0 ..< nat (n_count ex_raw)] = [0, 2]"
    by code_simp
  from post_process_stable_filter[of ex_ctx ex_raw] wf
  obtain dets where pp: "post_process ex_ctx ex_raw = Inr dets" by blast
  from post_process_stable_filter[of ex_ctx ex_raw] pp
  have d: "dets = map (\<lambda>i. the (kept ex_ctx ex_raw i))
                    (filter (\<lambda>i. kept ex_ctx ex_raw i \<noteq> None) [0 ..< nat (n_count ex_raw)])"
    and s: "\<forall>j < length (filter (\<lambda>i. kept ex_ctx ex_raw i \<noteq> None) [0 ..< nat (n_count ex_raw)]).
              snd (snd (dets ! j))
                = scores ex_raw ! (filter (\<lambda>i. kept ex_ctx ex_raw i \<noteq> None)
                                     [0 ..< nat (n_count ex_raw)] ! j)"
    by blast+
  have d': "dets = map (\<lambda>i. the (kept ex_ctx ex_raw i)) [0, 2]"
    using d unfolding ks .
  have s': "\<forall>j < length [0, 2 :: nat]. snd (snd (dets ! j)) = scores ex_raw ! ([0, 2] ! j)"
    using s unfolding ks .
  have "snd (snd (dets ! 0)) = scores ex_raw ! 0" using s'[rule_format, of 0] by simp
  moreover have "snd (snd (dets ! 1)) = scores ex_raw ! 2" using s'[rule_format, of 1] by simp
  ultimately show ?thesis using pp d' by blast
qed

text \<open>
  C3. Every detection the post-processor publishes satisfies the box invariant:
  \<open>x1 < x2\<close>, \<open>y1 < y2\<close>, and every coordinate lies in \<open>[0, frame_dim - 1]\<close> of its
  axis. The output consists of the retained indices only, and an index whose
  de-letterboxed and clamped box has \<open>x2 \<le> x1\<close> or \<open>y2 \<le> y1\<close> is never retained.
\<close>

theorem post_process_box_invariant:
  assumes "post_process C R = Inr dets"
  shows "(\<forall>d \<in> set dets.
           case d of ((x1, y1, x2, y2), name, s) \<Rightarrow>
             x1 < x2 \<and> y1 < y2
             \<and> 0 \<le> x1 \<and> x1 \<le> int (pc_frame_w C) - 1 \<and> 0 \<le> x2 \<and> x2 \<le> int (pc_frame_w C) - 1
             \<and> 0 \<le> y1 \<and> y1 \<le> int (pc_frame_h C) - 1 \<and> 0 \<le> y2 \<and> y2 \<le> int (pc_frame_h C) - 1)
         \<and> dets = map (\<lambda>i. the (kept C R i))
                     (filter (\<lambda>i. kept C R i \<noteq> None) [0 ..< nat (n_count R)])
         \<and> (\<forall>i x1 y1 x2 y2. det_box C R i = Inr (x1, y1, x2, y2) \<and> (x2 \<le> x1 \<or> y2 \<le> y1)
               \<longrightarrow> kept C R i = None)"
proof (intro conjI ballI allI impI)
  show dets: "dets = map (\<lambda>i. the (kept C R i))
                     (filter (\<lambda>i. kept C R i \<noteq> None) [0 ..< nat (n_count R)])"
    by (rule post_process_kept[OF assms])
  fix d assume "d \<in> set dets"
  then have "\<exists>i. kept C R i \<noteq> None \<and> d = the (kept C R i)"
    unfolding dets by (auto simp del: not_None_eq)
  then obtain i where "kept C R i \<noteq> None" "d = the (kept C R i)" by blast
  then have k: "kept C R i = Some d" by (cases "kept C R i") simp_all
  then have b: "det_body C R i = Inr (Some d)" by (simp add: kept_Some_iff)
  obtain x1 y1 x2 y2 name s where d: "d = ((x1, y1, x2, y2), name, s)"
    by (cases d) auto
  from det_body_Some[OF b] d
  have bx: "det_box C R i = Inr (x1, y1, x2, y2)" and lt: "x1 < x2" "y1 < y2" by auto
  from det_box_clamped[OF bx] obtain a b c e where
    cl: "x1 = clamp_px (pc_frame_w C) a" "y1 = clamp_px (pc_frame_h C) b"
        "x2 = clamp_px (pc_frame_w C) c" "y2 = clamp_px (pc_frame_h C) e" by blast
  have nn: "0 \<le> x1" "0 \<le> y1" "0 \<le> x2" "0 \<le> y2"
    unfolding cl by (rule clamp_px_nonneg)+
  have px: "0 < x2" and py: "0 < y2" using nn lt by linarith+
  have up: "x2 \<le> int (pc_frame_w C) - 1" "y2 \<le> int (pc_frame_h C) - 1"
    using px py clamp_px_upper[of "pc_frame_w C" c] clamp_px_upper[of "pc_frame_h C" e]
    unfolding cl by blast+
  have "x1 \<le> int (pc_frame_w C) - 1" "y1 \<le> int (pc_frame_h C) - 1"
    using up lt by linarith+
  then show "case d of ((x1, y1, x2, y2), name, s) \<Rightarrow>
             x1 < x2 \<and> y1 < y2
             \<and> 0 \<le> x1 \<and> x1 \<le> int (pc_frame_w C) - 1 \<and> 0 \<le> x2 \<and> x2 \<le> int (pc_frame_w C) - 1
             \<and> 0 \<le> y1 \<and> y1 \<le> int (pc_frame_h C) - 1 \<and> 0 \<le> y2 \<and> y2 \<le> int (pc_frame_h C) - 1"
    using d lt nn up by simp
next
  fix i x1 y1 x2 y2
  assume a: "det_box C R i = Inr (x1, y1, x2, y2) \<and> (x2 \<le> x1 \<or> y2 \<le> y1)"
  then have "\<forall>d. det_body C R i \<noteq> Inr (Some d)"
    using det_body_degenerate[of C R i x1 y1 x2 y2] by blast
  then show "kept C R i = None"
    by (auto simp: kept_def split: sum.splits option.splits)
qed

theorem post_process_box_invariant_witness:
  "post_process ex_ctx ex_raw
     = Inr [((160, 80, 480, 400), ''cat'', 0.9), ((0, 0, 320, 240), ''dog'', 0.5)]
   \<and> list_all (\<lambda>d. case d of ((x1, y1, x2, y2), name, s) \<Rightarrow>
          x1 < x2 \<and> y1 < y2 \<and> 0 \<le> x1 \<and> x1 \<le> (639 :: int) \<and> 0 \<le> x2 \<and> x2 \<le> 639
          \<and> 0 \<le> y1 \<and> y1 \<le> (479 :: int) \<and> 0 \<le> y2 \<and> y2 \<le> 479)
        [((160, 80, 480, 400), ''cat'', 0.9), ((0, 0, 320, 240), ''dog'', 0.5 :: rat)]
   \<and> det_box ex_ctx ex_raw 3 = Inr (320, 240, 560, 240)
   \<and> kept ex_ctx ex_raw 3 = None"
proof -
  have pp: "post_process ex_ctx ex_raw
     = Inr [((160, 80, 480, 400), ''cat'', 0.9), ((0, 0, 320, 240), ''dog'', 0.5)]"
    by (rule ex_post_process)
  have bx: "det_box ex_ctx ex_raw 3 = Inr (320, 240, 560, 240)" by code_simp
  have fw: "int (pc_frame_w ex_ctx) - 1 = 639" "int (pc_frame_h ex_ctx) - 1 = 479"
    by (simp_all add: ex_ctx_def)
  note inv = post_process_box_invariant[OF pp]
  have "\<forall>d \<in> set [((160, 80, 480, 400), ''cat'', 0.9), ((0, 0, 320, 240), ''dog'', 0.5 :: rat)].
      case d of ((x1, y1, x2, y2), name, s) \<Rightarrow>
        x1 < x2 \<and> y1 < y2 \<and> 0 \<le> x1 \<and> x1 \<le> (639 :: int) \<and> 0 \<le> x2 \<and> x2 \<le> 639
        \<and> 0 \<le> y1 \<and> y1 \<le> (479 :: int) \<and> 0 \<le> y2 \<and> y2 \<le> 479"
    using inv[THEN conjunct1] unfolding fw .
  then have a: "list_all (\<lambda>d. case d of ((x1, y1, x2, y2), name, s) \<Rightarrow>
          x1 < x2 \<and> y1 < y2 \<and> 0 \<le> x1 \<and> x1 \<le> (639 :: int) \<and> 0 \<le> x2 \<and> x2 \<le> 639
          \<and> 0 \<le> y1 \<and> y1 \<le> (479 :: int) \<and> 0 \<le> y2 \<and> y2 \<le> 479)
        [((160, 80, 480, 400), ''cat'', 0.9), ((0, 0, 320, 240), ''dog'', 0.5 :: rat)]"
    unfolding list_all_iff .
  have "kept ex_ctx ex_raw 3 = None"
    using inv[THEN conjunct2, THEN conjunct2, rule_format, of 3 320 240 560 240] bx by simp
  then show ?thesis using pp a bx by blast
qed

section \<open>Inverting the letterbox\<close>







section \<open>The inference loop\<close>

text \<open>
  C9, as the code has it. \<open>detection_loop\<close> has no \<open>try\<close> statement: an exception
  raised in a cycle is not caught there. If the loop has run through the observations
  \<open>pre\<close> and published the state \<open>st'\<close>, and the next cycle raises \<open>e\<close>, then \<open>e\<close> leaves
  the loop, whatever observations would have followed are not processed, and the
  published state stays that of the last completed cycle.
\<close>

theorem detection_loop_propagates:
  assumes "detection_loop cfg st pre = (st', None)"
    and "cycle cfg st' ob = Inl e"
  shows "detection_loop cfg st (pre @ ob # rest) = (st', Some e)"
  using assms
proof (induction pre arbitrary: st)
  case Nil
  then show ?case by simp
next
  case (Cons a pre)
  then show ?case by (cases "cycle cfg st a") auto
qed

theorem detection_loop_propagates_witness:
  "detection_loop ex_cfg ex_st0
     [Frame ex_frame ex_invoke_ok 2, NoFrame, Frame ex_frame ex_invoke_fails 4,
      Frame ex_frame ex_invoke_ok 6]
   = (\<lparr>detections = [((0, 0, 2, 1), ''cat'', 0.9)], fps = 1 / 2, t_prev = 2\<rparr>,
      Some RuntimeError)"
proof -
  let ?st = "\<lparr>detections = [((0, 0, 2, 1), ''cat'', 0.9)], fps = 1 / 2, t_prev = 2\<rparr>"
  have a: "detection_loop ex_cfg ex_st0 [Frame ex_frame ex_invoke_ok 2, NoFrame] = (?st, None)"
    by code_simp
  have b: "cycle ex_cfg ?st (Frame ex_frame ex_invoke_fails 4) = Inl RuntimeError"
    by code_simp
  show ?thesis
    using detection_loop_propagates[OF a b, of "[Frame ex_frame ex_invoke_ok 6]"] by simp
qed

text \<open>
  The claim as stated fails. When \<open>invoke\<close> raises in the first cycle, the loop ends
  with that exception and the initial state, although the frame that follows alone
  would have published a detection; a frame of width 0 ends the loop in the same way,
  with the \<open>ZeroDivisionError\<close> of \<open>letterbox\<close>.
\<close>

theorem detection_loop_uncaught_counterexample:
  "detection_loop ex_cfg ex_st0 [Frame ex_frame ex_invoke_fails 2, Frame ex_frame ex_invoke_ok 4]
     = (ex_st0, Some RuntimeError)
   \<and> detection_loop ex_cfg ex_st0 [Frame ex_frame ex_invoke_ok 4]
     = (\<lparr>detections = [((0, 0, 2, 1), ''cat'', 0.9)], fps = 1 / 4, t_prev = 4\<rparr>, None)
   \<and> detection_loop ex_cfg ex_st0
       [Frame \<lparr>height = 2, width = 0, rows = [[], []]\<rparr> ex_invoke_ok 2,
        Frame ex_frame ex_invoke_ok 4]
     = (ex_st0, Some ZeroDivisionError)"
  by code_simp

end
